theory Spec2Isabelle
  imports Complex_Main
begin

section \<open>Julian Day Number converter\<close>

text \<open>
  The source computes every quotient as \<^verbatim>\<open>_int_floor(a / b)\<close>: Python's true division of two
  integers followed by \<^verbatim>\<open>math.floor\<close>. True division of integers is correctly rounded, so for a
  numerator below \<open>2 ^ 53\<close> in magnitude and the small positive divisors used here the floor of
  the quotient is the floor division \<open>a div b\<close> of HOL's integers (which rounds toward minus
  infinity, as \<^verbatim>\<open>math.floor\<close> does). The embedding writes \<open>div\<close>; it is the source's value for
  every year whose day numbers stay below that magnitude.
\<close>

definition jd_from_date :: "int \<Rightarrow> int \<Rightarrow> int \<Rightarrow> int" where
  "jd_from_date dd mm yy =
     (let a = (14 - mm) div 12;
          y = yy + 4800 - a;
          m = mm + 12 * a - 3;
          jd = dd + (153 * m + 2) div 5 + 365 * y + y div 4 - y div 100 + y div 400 - 32045
      in if jd < 2299161
         then dd + (153 * m + 2) div 5 + 365 * y + y div 4 - 32083
         else jd)"

text \<open>The result triple is \<open>(day, month, year)\<close>, in the order the source returns it.\<close>

definition jd_to_date :: "int \<Rightarrow> int \<times> int \<times> int" where
  "jd_to_date jd =
     (let (b, c) =
            (if jd > 2299160
             then (let a = jd + 32044;
                       b = (4 * a + 3) div 146097;
                       c = a - (b * 146097) div 4
                   in (b, c))
             else (0, jd + 32082));
          d = (4 * c + 3) div 1461;
          e = c - (1461 * d) div 4;
          m = (5 * e + 2) div 153;
          day = e - (153 * m + 2) div 5 + 1;
          month = m + 3 - 12 * (m div 10);
          year = b * 100 + d - 4800 + m div 10
      in (day, month, year))"

subsection \<open>Valid calendar dates\<close>

text \<open>
  The calendar the converter implements: the Julian calendar up to 4 October 1582, the
  Gregorian calendar from 15 October 1582, years numbered astronomically (year 0 exists and is
  a leap year). These predicates are not part of the source, which validates nothing; they say
  which triples \<open>(day, month, year)\<close> are dates of that calendar.
\<close>

definition leap_year_julian :: "int \<Rightarrow> bool" where
  "leap_year_julian yy \<longleftrightarrow> yy mod 4 = 0"

definition leap_year_gregorian :: "int \<Rightarrow> bool" where
  "leap_year_gregorian yy \<longleftrightarrow> yy mod 4 = 0 \<and> (yy mod 100 \<noteq> 0 \<or> yy mod 400 = 0)"

definition days_in_month :: "bool \<Rightarrow> int \<Rightarrow> int" where
  "days_in_month leap mm =
     (if mm = 2 then (if leap then 29 else 28)
      else if mm = 4 \<or> mm = 6 \<or> mm = 9 \<or> mm = 11 then 30
      else 31)"

definition gregorian_era :: "int \<Rightarrow> int \<Rightarrow> int \<Rightarrow> bool" where
  "gregorian_era dd mm yy \<longleftrightarrow>
     1582 < yy \<or> (yy = 1582 \<and> (10 < mm \<or> (mm = 10 \<and> 15 \<le> dd)))"

definition julian_era :: "int \<Rightarrow> int \<Rightarrow> int \<Rightarrow> bool" where
  "julian_era dd mm yy \<longleftrightarrow>
     yy < 1582 \<or> (yy = 1582 \<and> (mm < 10 \<or> (mm = 10 \<and> dd \<le> 4)))"

definition valid_date :: "int \<Rightarrow> int \<Rightarrow> int \<Rightarrow> bool" where
  "valid_date dd mm yy \<longleftrightarrow>
     1 \<le> mm \<and> mm \<le> 12 \<and> 1 \<le> dd \<and>
     (if gregorian_era dd mm yy then dd \<le> days_in_month (leap_year_gregorian yy) mm
      else julian_era dd mm yy \<and> dd \<le> days_in_month (leap_year_julian yy) mm)"

section \<open>Astronomical primitives\<close>

text \<open>
  The source computes new moons and the sun's longitude in double-precision floating point.
  The embedding reads every float as the real number it stands for: decimal constants are the
  rationals they spell, \<^verbatim>\<open>math.sin\<close> is the real sine, \<^verbatim>\<open>math.pi\<close> is \<open>\<pi>\<close>, and
  \<^verbatim>\<open>math.floor\<close> is the floor of the reals. The time zone is a real number of hours.
  Memoisation (\<^verbatim>\<open>lru_cache\<close>) does not change any result and is left out.
\<close>

definition get_new_moon_day :: "int \<Rightarrow> real \<Rightarrow> int" where
  "get_new_moon_day k time_zone =
     (let T = real_of_int k / 1236.85;
          T2 = T * T;
          T3 = T2 * T;
          dr = pi / 180;
          Jd1 = 2415020.75933 + 29.53058868 * real_of_int k + 0.0001178 * T2 - 0.000000155 * T3;
          Jd1 = Jd1 + 0.00033 * sin ((166.56 + 132.87 * T - 0.009173 * T2) * dr);
          M = 359.2242 + 29.10535608 * real_of_int k - 0.0000333 * T2 - 0.00000347 * T3;
          Mpr = 306.0253 + 385.81691806 * real_of_int k + 0.0107306 * T2 + 0.00001236 * T3;
          F = 21.2964 + 390.67050646 * real_of_int k - 0.0016528 * T2 - 0.00000239 * T3;
          C1 = (0.1734 - 0.000393 * T) * sin (M * dr) + 0.0021 * sin (2 * dr * M);
          C1 = C1 - 0.4068 * sin (Mpr * dr) + 0.0161 * sin (dr * 2 * Mpr);
          C1 = C1 - 0.0004 * sin (dr * 3 * Mpr);
          C1 = C1 + 0.0104 * sin (dr * 2 * F) - 0.0051 * sin (dr * (M + Mpr));
          C1 = C1 - 0.0074 * sin (dr * (M - Mpr)) + 0.0004 * sin (dr * (2 * F + M));
          C1 = C1 - 0.0004 * sin (dr * (2 * F - M)) - 0.0006 * sin (dr * (2 * F + Mpr));
          C1 = C1 + 0.0010 * sin (dr * (2 * F - Mpr)) + 0.0005 * sin (dr * (2 * Mpr + M));
          deltat =
            (if T < -11
             then 0.001 + 0.000839 * T + 0.0002261 * T2 - 0.00000845 * T3
                  - 0.000000081 * T * T3
             else -0.000278 + 0.000265 * T + 0.000262 * T2);
          JdNew = Jd1 + C1 - deltat
      in \<lfloor>JdNew + 0.5 + time_zone / 24\<rfloor>)"

definition get_sun_longitude :: "int \<Rightarrow> real \<Rightarrow> int" where
  "get_sun_longitude jdn time_zone =
     (let T = (real_of_int jdn - 2451545.5 - time_zone / 24) / 36525;
          T2 = T * T;
          dr = pi / 180;
          M = 357.52910 + 35999.05030 * T - 0.0001559 * T2 - 0.00000048 * T * T2;
          L0 = 280.46645 + 36000.76983 * T + 0.0003032 * T2;
          DL = (1.914600 - 0.004817 * T - 0.000014 * T2) * sin (dr * M);
          DL = DL + (0.019993 - 0.000101 * T) * sin (dr * 2 * M) + 0.000290 * sin (dr * 3 * M);
          L = (L0 + DL) * dr;
          L = L - pi * 2 * real_of_int \<lfloor>L / (pi * 2)\<rfloor>
      in \<lfloor>L / pi * 6\<rfloor>)"

section \<open>Locating lunar month 11 and the leap month\<close>

definition get_lunar_month11 :: "int \<Rightarrow> real \<Rightarrow> int" where
  "get_lunar_month11 yy time_zone =
     (let off = jd_from_date 31 12 yy - 2415021;
          k = \<lfloor>real_of_int off / 29.530588853\<rfloor>;
          nm = get_new_moon_day k time_zone;
          sun_long = get_sun_longitude nm time_zone
      in if sun_long \<ge> 9 then get_new_moon_day (k - 1) time_zone else nm)"

text \<open>
  The scan of \<^verbatim>\<open>get_leap_month_offset\<close> is a \<^verbatim>\<open>while True\<close> loop that leaves by \<^verbatim>\<open>break\<close>.
  \<open>leap_scan k time_zone i arc\<close> is the loop entered with the counter \<open>i\<close> and the sector
  \<open>arc\<close> of new moon \<open>k + i\<close>; it returns the counter at the \<^verbatim>\<open>break\<close>, and \<open>None\<close> stands
  for a loop that never leaves.
\<close>

partial_function (option) leap_scan :: "int \<Rightarrow> real \<Rightarrow> int \<Rightarrow> int \<Rightarrow> int option" where
  "leap_scan k time_zone i arc =
     (let last = arc;
          i = i + 1;
          arc = get_sun_longitude (get_new_moon_day (k + i) time_zone) time_zone
      in if arc = last \<or> i \<ge> 14 then Some i else leap_scan k time_zone i arc)"

definition get_leap_month_offset :: "int \<Rightarrow> real \<Rightarrow> int option" where
  "get_leap_month_offset a11 time_zone =
     (let k = \<lfloor>(real_of_int a11 - 2415021.076998695) / 29.530588853 + 0.5\<rfloor>;
          i = 1;
          arc = get_sun_longitude (get_new_moon_day (k + i) time_zone) time_zone
      in map_option (\<lambda>i. i - 1) (leap_scan k time_zone i arc))"

text \<open>
  \<open>sector time_zone n\<close> is the sun-longitude sector at the day of new moon number \<open>n\<close>,
  the quantity the scan compares for consecutive new moons.
\<close>

definition sector :: "real \<Rightarrow> int \<Rightarrow> int" where
  "sector time_zone n = get_sun_longitude (get_new_moon_day n time_zone) time_zone"

section \<open>Directional converters\<close>

record LunarDate =
  day :: int
  month :: int
  year :: int
  leap :: bool

text \<open>
  \<open>convert_solar_to_lunar\<close> has no \<^verbatim>\<open>raise\<close>; its result is \<open>None\<close> only if the leap-month
  scan does not return.
\<close>

definition convert_solar_to_lunar :: "int \<Rightarrow> int \<Rightarrow> int \<Rightarrow> real \<Rightarrow> LunarDate option" where
  "convert_solar_to_lunar dd mm yy time_zone =
     (let day_number = jd_from_date dd mm yy;
          k = \<lfloor>(real_of_int day_number - 2415021.076998695) / 29.530588853\<rfloor>;
          month_start = get_new_moon_day (k + 1) time_zone;
          month_start = (if month_start > day_number then get_new_moon_day k time_zone
                         else month_start);
          a11 = get_lunar_month11 yy time_zone;
          b11 = a11;
          (lunar_year, a11, b11) =
            (if a11 \<ge> month_start
             then (yy, get_lunar_month11 (yy - 1) time_zone, b11)
             else (yy + 1, a11, get_lunar_month11 (yy + 1) time_zone));
          lunar_day = day_number - month_start + 1;
          diff = (month_start - a11) div 29;
          lunar_leap = False;
          lunar_month = diff + 11
      in case (if b11 - a11 > 365
               then map_option
                      (\<lambda>leap_month_diff.
                         if diff \<ge> leap_month_diff
                         then (diff + 10, diff = leap_month_diff)
                         else (lunar_month, lunar_leap))
                      (get_leap_month_offset a11 time_zone)
               else Some (lunar_month, lunar_leap)) of
           None \<Rightarrow> None
         | Some (lunar_month, lunar_leap) \<Rightarrow>
             (let lunar_month = (if lunar_month > 12 then lunar_month - 12 else lunar_month);
                  lunar_year = (if lunar_month \<ge> 11 \<and> diff < 4 then lunar_year - 1
                                else lunar_year)
              in Some \<lparr>day = lunar_day, month = lunar_month, year = lunar_year,
                        leap = lunar_leap\<rparr>))"

text \<open>
  The solar date is the triple \<open>(year, month, day)\<close> that \<^verbatim>\<open>datetime.date(yy, mm, dd)\<close> holds.
  The constructor accepts the dates of the proleptic Gregorian calendar of the years 1 to 9999
  and raises \<^verbatim>\<open>ValueError\<close> for everything else. The source's own \<^verbatim>\<open>raise ValueError\<close> for an
  inconsistent leap flag is the other error.
\<close>

type_synonym date = "int \<times> int \<times> int"

datatype error = InvalidLeapFlag | DateOutOfRange

definition date_of :: "int \<Rightarrow> int \<Rightarrow> int \<Rightarrow> error + date" where
  "date_of yy mm dd =
     (if 1 \<le> yy \<and> yy \<le> 9999 \<and> 1 \<le> mm \<and> mm \<le> 12 \<and> 1 \<le> dd \<and>
         dd \<le> days_in_month (leap_year_gregorian yy) mm
      then Inr (yy, mm, dd)
      else Inl DateOutOfRange)"

text \<open>
  The result of \<open>convert_lunar_to_solar\<close> is \<open>None\<close> if the call does not return,
  \<open>Some (Inl e)\<close> if it raises \<open>e\<close> and \<open>Some (Inr d)\<close> if it returns the date \<open>d\<close>.
\<close>

definition convert_lunar_to_solar ::
    "int \<Rightarrow> int \<Rightarrow> int \<Rightarrow> int \<Rightarrow> real \<Rightarrow> (error + date) option" where
  "convert_lunar_to_solar lunar_day lunar_month lunar_year lunar_leap time_zone =
     (let (a11, b11) =
            (if lunar_month < 11
             then (get_lunar_month11 (lunar_year - 1) time_zone,
                   get_lunar_month11 lunar_year time_zone)
             else (get_lunar_month11 lunar_year time_zone,
                   get_lunar_month11 (lunar_year + 1) time_zone));
          off = lunar_month - 11;
          off = (if off < 0 then off + 12 else off)
      in case (if b11 - a11 > 365
               then case get_leap_month_offset a11 time_zone of
                      None \<Rightarrow> None
                    | Some leap_off \<Rightarrow>
                        (let leap_month = leap_off - 2;
                             leap_month = (if leap_month < 0 then leap_month + 12
                                           else leap_month)
                         in if lunar_leap \<noteq> 0 \<and> lunar_month \<noteq> leap_month
                            then Some (Inl InvalidLeapFlag)
                            else if lunar_leap \<noteq> 0 \<or> off \<ge> leap_off
                            then Some (Inr (off + 1))
                            else Some (Inr off))
               else Some (Inr off)) of
           None \<Rightarrow> None
         | Some (Inl e) \<Rightarrow> Some (Inl e)
         | Some (Inr off) \<Rightarrow>
             (let k = \<lfloor>0.5 + (real_of_int a11 - 2415021.076998695) / 29.530588853\<rfloor>;
                  month_start = get_new_moon_day (k + off) time_zone;
                  (dd, mm, yy) = jd_to_date (month_start + lunar_day - 1)
              in Some (date_of yy mm dd)))"

subsection \<open>Convenience API\<close>

text \<open>A \<^verbatim>\<open>DateLike\<close> is a \<^verbatim>\<open>datetime.date\<close> or a tuple \<open>(dd, mm, yy)\<close>.\<close>

datatype DateLike = Date date | Tuple int int int

fun solar_to_lunar :: "DateLike \<Rightarrow> real \<Rightarrow> LunarDate option" where
  "solar_to_lunar (Tuple dd mm yy) time_zone = convert_solar_to_lunar dd mm yy time_zone"
| "solar_to_lunar (Date (yy, mm, dd)) time_zone = convert_solar_to_lunar dd mm yy time_zone"

definition lunar_to_solar :: "LunarDate \<Rightarrow> real \<Rightarrow> (error + date) option" where
  "lunar_to_solar lunar time_zone =
     convert_lunar_to_solar (day lunar) (month lunar) (year lunar)
       (if leap lunar then 1 else 0) time_zone"

section \<open>Known values\<close>

text \<open>
  C5: \<open>jd_from_date\<close> returns the known anchor values: 1 January 2000 is day 2451545,
  4 October 1582 is day 2299160 and 15 October 1582, the first Gregorian day, is day 2299161.
\<close>

theorem jd_from_date_anchors:
  "jd_from_date 1 1 2000 = 2451545 \<and>
   jd_from_date 4 10 1582 = 2299160 \<and>
   jd_from_date 15 10 1582 = 2299161"
  by (simp add: jd_from_date_def)

section \<open>Round trip of the Julian Day Number converter\<close>

subsection \<open>Arithmetic of the calendar cycles\<close>

lemma div_eqI:
  fixes a b q :: int
  assumes "0 < b" "b * q \<le> a" "a < b * q + b"
  shows "a div b = q"
proof (rule int_div_pos_eq)
  show "a = b * q + (a - b * q)" by simp
  show "0 \<le> a - b * q" using assms by simp
  show "a - b * q < b" using assms by simp
qed

lemma quarter_decode:
  fixes y e :: int
  assumes e: "0 \<le> e" "e \<le> 365" and leap: "e = 365 \<Longrightarrow> y mod 4 = 3"
  shows "(4 * (365 * y + y div 4 + e) + 3) div 1461 = y"
    and "365 * y + y div 4 + e - (1461 * y) div 4 = e"
proof -
  define q where "q = y div 4"
  define r where "r = y mod 4"
  have y: "y = 4 * q + r" and r: "0 \<le> r" "r < 4"
    by (simp_all add: q_def r_def)
  have leap': "e = 365 \<Longrightarrow> r = 3"
    using leap by (simp add: r_def)
  have "(4 * (365 * y + q + e) + 3) div 1461 = y"
  proof (rule div_eqI)
    show "1461 * y \<le> 4 * (365 * y + q + e) + 3" using y r e by simp
    show "4 * (365 * y + q + e) + 3 < 1461 * y + 1461"
    proof (cases "e = 365")
      case True
      with leap' have "r = 3" by simp
      with y e True show ?thesis by simp
    next
      case False
      with y r e show ?thesis by simp
    qed
  qed simp
  then show "(4 * (365 * y + y div 4 + e) + 3) div 1461 = y"
    by (simp only: q_def)
  have "(1461 * y) div 4 = 1461 * q + 365 * r"
    by (rule div_eqI) (use y r in simp_all)
  then show "365 * y + y div 4 + e - (1461 * y) div 4 = e"
    unfolding q_def [symmetric] using y by simp
qed

lemma century_decode:
  fixes y e :: int
  assumes e: "0 \<le> e" "e \<le> 365"
    and leap: "e = 365 \<Longrightarrow> y mod 100 \<noteq> 99 \<or> y mod 400 = 399"
  defines "a \<equiv> 365 * y + y div 4 - y div 100 + y div 400 + e"
  shows "(4 * a + 3) div 146097 = y div 100"
    and "a - ((y div 100) * 146097) div 4 = 365 * (y mod 100) + (y mod 100) div 4 + e"
proof -
  define h where "h = y div 100"
  define r2 where "r2 = y mod 100"
  define q where "q = h div 4"
  define c1 where "c1 = h mod 4"
  define t where "t = r2 div 4"
  define u where "u = r2 mod 4"
  have y: "y = 100 * h + r2" and r2: "0 \<le> r2" "r2 < 100"
    by (simp_all add: h_def r2_def)
  have h: "h = 4 * q + c1" and c1: "0 \<le> c1" "c1 < 4"
    by (simp_all add: q_def c1_def)
  have r2': "r2 = 4 * t + u" and u: "0 \<le> u" "u < 4"
    by (simp_all add: t_def u_def)
  have d4: "y div 4 = 25 * h + t"
    by (rule div_eqI) (use y r2' u in simp_all)
  have d400: "y div 400 = q"
    by (rule div_eqI) (use y h c1 r2 in simp_all)
  have m400: "y mod 400 = 100 * c1 + r2"
    by (rule int_mod_pos_eq [where q = q]) (use y h c1 r2 in simp_all)
  have leap': "e = 365 \<Longrightarrow> r2 \<noteq> 99 \<or> c1 = 3"
    using leap m400 r2 c1 by (auto simp: r2_def [symmetric])
  have a: "a = 146097 * q + 36524 * c1 + 365 * r2 + t + e"
    unfolding a_def d4 d400 h_def [symmetric] using y h by simp
  have t: "0 \<le> t" "4 * t \<le> r2" using r2' r2 u by simp_all
  have t24: "t \<le> 24" using t r2 by presburger
  have a4: "4 * a + 3 = 584388 * q + 146096 * c1 + 1460 * r2 + 4 * t + 4 * e + 3"
    using a by simp
  have h4: "146097 * h = 584388 * q + 146097 * c1"
    using h by simp
  show "(4 * a + 3) div 146097 = y div 100"
    unfolding h_def [symmetric]
  proof (rule div_eqI)
    show "146097 * h \<le> 4 * a + 3"
      unfolding a4 h4 using c1 r2 t e by linarith
    show "4 * a + 3 < 146097 * h + 146097"
    proof -
      consider "e \<le> 364" | "e = 365" "r2 \<le> 98" | "e = 365" "r2 = 99"
        using e r2 by linarith
      then show ?thesis
      proof cases
        case 1
        with c1 r2 t24 show ?thesis unfolding a4 h4 by linarith
      next
        case 2
        with c1 t24 show ?thesis unfolding a4 h4 by linarith
      next
        case 3
        with leap' have "c1 = 3" by simp
        with t24 3 show ?thesis unfolding a4 h4 by linarith
      qed
    qed
  qed simp
  have "(h * 146097) div 4 = 146097 * q + 36524 * c1"
    by (rule div_eqI) (use h c1 in simp_all)
  then show "a - ((y div 100) * 146097) div 4 = 365 * (y mod 100) + (y mod 100) div 4 + e"
    unfolding h_def [symmetric] r2_def [symmetric] t_def [symmetric] using a by simp
qed

lemma month_decode:
  fixes e m :: int
  assumes "(153 * m + 2) div 5 \<le> e" "e < (153 * (m + 1) + 2) div 5"
  shows "(5 * e + 2) div 153 = m"
proof -
  define s where "s = (153 * m + 2) div 5"
  define s' where "s' = (153 * (m + 1) + 2) div 5"
  have s: "153 * m + 2 < 5 * s + 5"
    unfolding s_def using pos_mod_bound [of 5 "153 * m + 2"]
    by (simp add: minus_mod_eq_mult_div [symmetric])
  have s': "5 * s' \<le> 153 * m + 155"
    unfolding s'_def using pos_mod_sign [of 5 "153 * (m + 1) + 2"]
    by (simp add: minus_mod_eq_mult_div [symmetric])
  from assms have "s \<le> e" "e + 1 \<le> s'"
    by (simp_all add: s_def s'_def)
  with s s' show ?thesis
    by (intro div_eqI) linarith+
qed

lemma jd_to_date_julian:
  assumes jd: "jd \<le> 2299160"
    and c: "jd + 32082 = 365 * y + y div 4 + e"
    and e: "0 \<le> e" "e \<le> 365" and leap: "e = 365 \<Longrightarrow> y mod 4 = 3"
    and m: "(153 * m + 2) div 5 \<le> e" "e < (153 * (m + 1) + 2) div 5"
  shows "jd_to_date jd =
    (e - (153 * m + 2) div 5 + 1, m + 3 - 12 * (m div 10), y - 4800 + m div 10)"
proof -
  have d: "(4 * (jd + 32082) + 3) div 1461 = y"
    unfolding c using e leap by (rule quarter_decode(1))
  have e': "jd + 32082 - (1461 * y) div 4 = e"
    unfolding c using e leap by (rule quarter_decode(2))
  have m': "(5 * e + 2) div 153 = m"
    using m by (rule month_decode)
  from jd have era: "\<not> 2299160 < jd"
    by simp
  have "jd_to_date jd =
      (e - (153 * m + 2) div 5 + 1, m + 3 - 12 * (m div 10), 0 * 100 + y - 4800 + m div 10)"
    by (simp only: jd_to_date_def Let_def era if_False prod.case d e' m')
  then show ?thesis
    by simp
qed

lemma jd_to_date_gregorian:
  assumes jd: "2299160 < jd"
    and a: "jd + 32044 = 365 * y + y div 4 - y div 100 + y div 400 + e"
    and e: "0 \<le> e" "e \<le> 365"
    and leap: "e = 365 \<Longrightarrow> y mod 4 = 3 \<and> (y mod 100 \<noteq> 99 \<or> y mod 400 = 399)"
    and m: "(153 * m + 2) div 5 \<le> e" "e < (153 * (m + 1) + 2) div 5"
  shows "jd_to_date jd =
    (e - (153 * m + 2) div 5 + 1, m + 3 - 12 * (m div 10), y - 4800 + m div 10)"
proof -
  have leap1: "e = 365 \<Longrightarrow> y mod 100 \<noteq> 99 \<or> y mod 400 = 399"
    using leap by simp
  have b: "(4 * (jd + 32044) + 3) div 146097 = y div 100"
    unfolding a using e leap1 by (rule century_decode(1))
  have c: "jd + 32044 - ((y div 100) * 146097) div 4 =
      365 * (y mod 100) + (y mod 100) div 4 + e"
    unfolding a using e leap1 by (rule century_decode(2))
  have "y mod 100 mod 4 = y mod 4"
    by (rule mod_mod_cancel) simp
  with leap have leap2: "e = 365 \<Longrightarrow> y mod 100 mod 4 = 3"
    by simp
  have d: "(4 * (365 * (y mod 100) + (y mod 100) div 4 + e) + 3) div 1461 = y mod 100"
    using e leap2 by (rule quarter_decode(1))
  have e': "365 * (y mod 100) + (y mod 100) div 4 + e - (1461 * (y mod 100)) div 4 = e"
    using e leap2 by (rule quarter_decode(2))
  have m': "(5 * e + 2) div 153 = m"
    using m by (rule month_decode)
  have y: "y div 100 * 100 + y mod 100 = y"
    by simp
  have "jd_to_date jd =
      (e - (153 * m + 2) div 5 + 1, m + 3 - 12 * (m div 10),
       y div 100 * 100 + y mod 100 - 4800 + m div 10)"
    by (simp only: jd_to_date_def Let_def jd if_True prod.case b c d e' m')
  then show ?thesis
    by (simp only: y)
qed

lemma div_bounds:
  fixes a b :: int
  assumes "0 < b"
  shows "b * (a div b) \<le> a" and "a < b * (a div b) + b"
  using assms pos_mod_sign [of b a] pos_mod_bound [of b a]
  by (simp_all add: minus_mod_eq_mult_div [symmetric])

lemma gregorian_days_bounds:
  fixes y :: int
  defines "g \<equiv> 365 * y + y div 4 - y div 100 + y div 400"
  shows "146097 * y - 699 \<le> 400 * g" and "400 * g \<le> 146097 * y + 396"
proof -
  define q4 where "q4 = y div 4"
  define q100 where "q100 = y div 100"
  define q400 where "q400 = y div 400"
  have g: "400 * g = 146000 * y + 400 * q4 - 400 * q100 + 400 * q400"
    by (simp add: g_def q4_def q100_def q400_def)
  have b4: "4 * q4 \<le> y" "y < 4 * q4 + 4"
    unfolding q4_def by (rule div_bounds; simp)+
  have b100: "100 * q100 \<le> y" "y < 100 * q100 + 100"
    unfolding q100_def by (rule div_bounds; simp)+
  have b400: "400 * q400 \<le> y" "y < 400 * q400 + 400"
    unfolding q400_def by (rule div_bounds; simp)+
  show "146097 * y - 699 \<le> 400 * g"
    unfolding g using b4 b100 b400 by linarith
  show "400 * g \<le> 146097 * y + 396"
    unfolding g using b4 b100 b400 by linarith
qed

lemma julian_days_bound:
  fixes y :: int
  shows "4 * (365 * y + y div 4) \<le> 1461 * y"
  using div_bounds(1) [of 4 y] by simp

lemma month_facts:
  fixes dd mm a m e :: int
  assumes mm: "1 \<le> mm" "mm \<le> 12" and dd: "1 \<le> dd" "dd \<le> days_in_month lp mm"
    and a: "a = (14 - mm) div 12"
    and m: "m = mm + 12 * a - 3"
    and e: "e = dd - 1 + (153 * m + 2) div 5"
  shows "a = (if mm \<le> 2 then 1 else 0)"
    and "m div 10 = a"
    and "m + 3 - 12 * (m div 10) = mm"
    and "(153 * m + 2) div 5 \<le> e" and "e < (153 * (m + 1) + 2) div 5"
    and "0 \<le> e" and "e \<le> 365" and "e = 365 \<Longrightarrow> mm = 2 \<and> lp"
    and "mm \<le> 2 \<Longrightarrow> 306 \<le> e"
    and "3 \<le> mm \<Longrightarrow> 10 < mm \<or> (mm = 10 \<and> 15 \<le> dd) \<Longrightarrow> 228 \<le> e"
    and "3 \<le> mm \<Longrightarrow> mm < 10 \<or> (mm = 10 \<and> dd \<le> 4) \<Longrightarrow> e \<le> 217"
proof -
  from mm have "mm = 1 \<or> mm = 2 \<or> mm = 3 \<or> mm = 4 \<or> mm = 5 \<or> mm = 6 \<or>
      mm = 7 \<or> mm = 8 \<or> mm = 9 \<or> mm = 10 \<or> mm = 11 \<or> mm = 12"
    by presburger
  then have "a = (if mm \<le> 2 then 1 else 0) \<and> m div 10 = a \<and> m + 3 - 12 * (m div 10) = mm \<and>
      (153 * m + 2) div 5 \<le> e \<and> e < (153 * (m + 1) + 2) div 5 \<and>
      0 \<le> e \<and> e \<le> 365 \<and> (e = 365 \<longrightarrow> mm = 2 \<and> lp) \<and>
      (mm \<le> 2 \<longrightarrow> 306 \<le> e) \<and>
      (3 \<le> mm \<longrightarrow> 10 < mm \<or> (mm = 10 \<and> 15 \<le> dd) \<longrightarrow> 228 \<le> e) \<and>
      (3 \<le> mm \<longrightarrow> mm < 10 \<or> (mm = 10 \<and> dd \<le> 4) \<longrightarrow> e \<le> 217)"
    using dd unfolding a m e days_in_month_def
    by (elim disjE) (simp_all split: if_splits)
  then show "a = (if mm \<le> 2 then 1 else 0)"
    and "m div 10 = a"
    and "m + 3 - 12 * (m div 10) = mm"
    and "(153 * m + 2) div 5 \<le> e" and "e < (153 * (m + 1) + 2) div 5"
    and "0 \<le> e" and "e \<le> 365" and "e = 365 \<Longrightarrow> mm = 2 \<and> lp"
    and "mm \<le> 2 \<Longrightarrow> 306 \<le> e"
    and "3 \<le> mm \<Longrightarrow> 10 < mm \<or> (mm = 10 \<and> 15 \<le> dd) \<Longrightarrow> 228 \<le> e"
    and "3 \<le> mm \<Longrightarrow> mm < 10 \<or> (mm = 10 \<and> dd \<le> 4) \<Longrightarrow> e \<le> 217"
    by blast+
qed

lemma jd_from_date_unfold:
  fixes dd mm yy a y m e :: int
  assumes a: "a = (14 - mm) div 12"
    and y: "y = yy + 4800 - a"
    and m: "m = mm + 12 * a - 3"
    and e: "e = dd - 1 + (153 * m + 2) div 5"
  shows "jd_from_date dd mm yy =
    (if e + (365 * y + y div 4 - y div 100 + y div 400) - 32044 < 2299161
     then e + (365 * y + y div 4) - 32082
     else e + (365 * y + y div 4 - y div 100 + y div 400) - 32044)"
proof -
  have g: "dd + (153 * m + 2) div 5 + 365 * y + y div 4 - y div 100 + y div 400 - 32045 =
      e + (365 * y + y div 4 - y div 100 + y div 400) - 32044"
    unfolding e by (simp only: algebra_simps)
  have j: "dd + (153 * m + 2) div 5 + 365 * y + y div 4 - 32083 =
      e + (365 * y + y div 4) - 32082"
    unfolding e by (simp only: algebra_simps)
  have "jd_from_date dd mm yy =
    (if dd + (153 * m + 2) div 5 + 365 * y + y div 4 - y div 100 + y div 400 - 32045 < 2299161
     then dd + (153 * m + 2) div 5 + 365 * y + y div 4 - 32083
     else dd + (153 * m + 2) div 5 + 365 * y + y div 4 - y div 100 + y div 400 - 32045)"
    by (simp only: jd_from_date_def Let_def a y m)
  then show ?thesis
    by (simp only: g j)
qed

lemma mod_shift:
  fixes a k n r :: int
  assumes "a mod n = r"
  shows "(a + k) mod n = (r + k) mod n"
  using assms mod_add_left_eq [of a n k] by simp

lemma mod_unshift:
  fixes a k n r :: int
  assumes "(a + k) mod n = r"
  shows "a mod n = (r - k) mod n"
  using assms mod_diff_left_eq [of "a + k" n k] by simp

lemma shifted_leap_gregorian:
  fixes yy :: int
  assumes "leap_year_gregorian yy"
  shows "(yy + 4799) mod 4 = 3 \<and> ((yy + 4799) mod 100 \<noteq> 99 \<or> (yy + 4799) mod 400 = 399)"
proof -
  from assms have yy: "yy mod 4 = 0" "yy mod 100 \<noteq> 0 \<or> yy mod 400 = 0"
    by (simp_all add: leap_year_gregorian_def)
  from yy(1) have m4: "(yy + 4799) mod 4 = 3"
    using mod_shift [of yy 4 0 4799] by simp
  have m100: "(yy + 4799) mod 100 \<noteq> 99" if "yy mod 100 \<noteq> 0"
    using that mod_unshift [of yy 4799 100 99] by auto
  have m400: "(yy + 4799) mod 400 = 399" if "yy mod 400 = 0"
    using that mod_shift [of yy 400 0 4799] by simp
  from yy(2) consider "yy mod 100 \<noteq> 0" | "yy mod 400 = 0"
    by fast
  then show ?thesis
  proof cases
    case 1
    then show ?thesis using m4 m100 by simp
  next
    case 2
    then show ?thesis using m4 m400 by simp
  qed
qed
lemma shifted_leap_julian:
  fixes yy :: int
  assumes "leap_year_julian yy"
  shows "(yy + 4799) mod 4 = 3"
  using assms mod_shift [of yy 4 0 4799] by (simp add: leap_year_julian_def)

subsection \<open>The two converters are inverses on valid dates\<close>

text \<open>
  C1: for every valid proleptic Julian/Gregorian calendar date \<open>(day, month, year)\<close>,
  converting the date to its Julian Day Number and back returns exactly the same triple; this
  holds on both sides of the transition of October 1582 and for every year, negative ones
  included.
\<close>

theorem jd_roundtrip:
  assumes v: "valid_date dd mm yy"
  shows "jd_to_date (jd_from_date dd mm yy) = (dd, mm, yy)"
proof -
  define a where "a = (14 - mm) div 12"
  define y where "y = yy + 4800 - a"
  define m where "m = mm + 12 * a - 3"
  define e where "e = dd - 1 + (153 * m + 2) div 5"
  define g where "g = 365 * y + y div 4 - y div 100 + y div 400"
  define j where "j = 365 * y + y div 4"
  define lp where "lp = (if gregorian_era dd mm yy then leap_year_gregorian yy
    else leap_year_julian yy)"
  from v have mm: "1 \<le> mm" "mm \<le> 12" and dd: "1 \<le> dd" "dd \<le> days_in_month lp mm"
    by (simp_all add: valid_date_def lp_def split: if_splits)
  note mf = month_facts [OF mm dd a_def m_def e_def]
  have from_date: "jd_from_date dd mm yy =
      (if e + g - 32044 < 2299161 then e + j - 32082 else e + g - 32044)"
    unfolding g_def j_def using a_def y_def m_def e_def by (rule jd_from_date_unfold)
  have result: "(e - (153 * m + 2) div 5 + 1, m + 3 - 12 * (m div 10), y - 4800 + m div 10)
      = (dd, mm, yy)"
    using mf(2,3) by (simp add: e_def y_def)
  have gb: "146097 * y - 699 \<le> 400 * g" "400 * g \<le> 146097 * y + 396"
    unfolding g_def by (rule gregorian_days_bounds)+
  have jb: "4 * j \<le> 1461 * y"
    unfolding j_def by (rule julian_days_bound)
  show ?thesis
  proof (cases "gregorian_era dd mm yy")
    case True
    then have lp: "lp = leap_year_gregorian yy"
      by (simp add: lp_def)
    have jd: "2299160 < e + g - 32044"
    proof (cases "yy = 1582")
      case y1582: True
      with True have "10 \<le> mm" "10 < mm \<or> (mm = 10 \<and> 15 \<le> dd)"
        by (auto simp: gregorian_era_def)
      with mf(1,10) have "a = 0" "228 \<le> e"
        by simp_all
      with y1582 have "g = 2330977"
        by (simp add: g_def y_def)
      with \<open>228 \<le> e\<close> show ?thesis by simp
    next
      case False
      with True have yy: "1583 \<le> yy"
        by (simp add: gregorian_era_def)
      show ?thesis
      proof (cases "mm \<le> 2")
        case True
        with mf(1,9) have "a = 1" "306 \<le> e" by simp_all
        with yy have "6382 \<le> y" by (simp add: y_def)
        with gb(1) \<open>306 \<le> e\<close> show ?thesis by linarith
      next
        case False
        with mf(1) have "a = 0" by simp
        with yy have "6383 \<le> y" by (simp add: y_def)
        with gb(1) mf(6) show ?thesis by linarith
      qed
    qed
    have leap: "e = 365 \<Longrightarrow> y mod 4 = 3 \<and> (y mod 100 \<noteq> 99 \<or> y mod 400 = 399)"
    proof -
      assume "e = 365"
      with mf(8) have "mm = 2" "leap_year_gregorian yy"
        by (simp_all add: lp)
      with mf(1) have "y = yy + 4799"
        by (simp add: y_def)
      with \<open>leap_year_gregorian yy\<close> show ?thesis
        using shifted_leap_gregorian by simp
    qed
    have "jd_to_date (e + g - 32044) =
        (e - (153 * m + 2) div 5 + 1, m + 3 - 12 * (m div 10), y - 4800 + m div 10)"
      using jd _ mf(6,7) leap mf(4,5)
      by (rule jd_to_date_gregorian) (simp add: g_def)
    with jd show ?thesis
      by (simp add: from_date result)
  next
    case False
    with v have era: "julian_era dd mm yy" and lp: "lp = leap_year_julian yy"
      by (simp_all add: valid_date_def lp_def)
    have jd: "e + g - 32044 < 2299161 \<and> e + j - 32082 \<le> 2299160"
    proof (cases "yy = 1582 \<and> 3 \<le> mm")
      case True
      with era have "mm < 10 \<or> (mm = 10 \<and> dd \<le> 4)"
        by (auto simp: julian_era_def)
      with True mf(1,11) have "a = 0" "e \<le> 217"
        by simp_all
      with True have "g = 2330977" "j = 2331025"
        by (simp_all add: g_def j_def y_def)
      with \<open>e \<le> 217\<close> show ?thesis by simp
    next
      case False
      with era mf(1) have "y \<le> 6381"
        by (auto simp: julian_era_def y_def split: if_splits)
      with gb(2) jb mf(7) show ?thesis by linarith
    qed
    have leap: "e = 365 \<Longrightarrow> y mod 4 = 3"
    proof -
      assume "e = 365"
      with mf(8) have "mm = 2" "leap_year_julian yy"
        by (simp_all add: lp)
      with mf(1) have "y = yy + 4799"
        by (simp add: y_def)
      with \<open>leap_year_julian yy\<close> show ?thesis
        using shifted_leap_julian by simp
    qed
    have "jd_to_date (e + j - 32082) =
        (e - (153 * m + 2) div 5 + 1, m + 3 - 12 * (m div 10), y - 4800 + m div 10)"
      using conjunct2 [OF jd] _ mf(6,7) leap mf(4,5)
      by (rule jd_to_date_julian) (simp add: j_def)
    with jd show ?thesis
      by (simp add: from_date result)
  qed
qed

text \<open>The leap day of the year 2000 is a valid date, and it makes the round trip.\<close>

theorem jd_roundtrip_witness:
  "valid_date 29 2 2000 \<and> jd_to_date (jd_from_date 29 2 2000) = (29, 2, 2000)"
proof -
  have v: "valid_date 29 2 2000"
    by (simp add: valid_date_def gregorian_era_def days_in_month_def leap_year_gregorian_def)
  from v jd_roundtrip [OF v] show ?thesis
    by simp
qed

subsection \<open>The ten skipped days of October 1582\<close>

text \<open>
  C10: \<open>jd_from_date\<close> is not injective at the Gregorian transition. Each of the ten
  skipped dates 5 to 14 October 1582 gets the day number of the date ten days later (15 to 24
  October 1582), so converting back yields that later date and not the input.
\<close>

theorem jd_skipped_days:
  assumes "5 \<le> dd" "dd \<le> 14"
  shows "jd_from_date dd 10 1582 = jd_from_date (dd + 10) 10 1582 \<and>
    jd_to_date (jd_from_date dd 10 1582) = (dd + 10, 10, 1582) \<and>
    jd_to_date (jd_from_date dd 10 1582) \<noteq> (dd, 10, 1582)"
proof -
  have "\<forall>d \<in> {5..14}.
      jd_from_date d 10 1582 = jd_from_date (d + 10) 10 1582 \<and>
      jd_to_date (jd_from_date d 10 1582) = (d + 10, 10, 1582) \<and>
      jd_to_date (jd_from_date d 10 1582) \<noteq> (d, 10, 1582)"
    by code_simp
  moreover from assms have "dd \<in> {5..14}"
    by simp
  ultimately show ?thesis
    by blast
qed

text \<open>In particular 5 and 15 October 1582 both have day number 2299161.\<close>

theorem jd_skipped_days_witness:
  "(5::int) \<le> 5 \<and> (5::int) \<le> 14 \<and>
   jd_from_date 5 10 1582 = 2299161 \<and> jd_from_date 15 10 1582 = 2299161 \<and>
   jd_to_date (jd_from_date 5 10 1582) = (15, 10, 1582) \<and>
   jd_to_date (jd_from_date 5 10 1582) \<noteq> (5, 10, 1582)"
proof -
  have h: "(5::int) \<le> 5" "(5::int) \<le> 14"
    by simp_all
  have s: "(5::int) + 10 = 15"
    by simp
  have v: "jd_from_date 15 10 1582 = 2299161"
    by code_simp
  from jd_skipped_days [OF h] show ?thesis
    unfolding s v using h by blast
qed

section \<open>The leap-month scan\<close>

text \<open>
  The scan returns from every counter: at 13 or more it leaves after one step, and below 13
  each step either leaves or moves the counter up by one.
\<close>

lemma leap_scan_returns:
  "\<exists>r. leap_scan k tz i (sector tz (k + i)) = Some r \<and> i < r \<and> (r \<le> 14 \<or> r = i + 1) \<and>
     (sector tz (k + r) = sector tz (k + r - 1) \<or> 14 \<le> r) \<and>
     (\<forall>j. i < j \<and> j < r \<longrightarrow> sector tz (k + j) \<noteq> sector tz (k + j - 1) \<and> j < 14)"
proof (induction "nat (13 - i)" arbitrary: i)
  case 0
  then have i: "13 \<le> i"
    by simp
  then have "leap_scan k tz i (sector tz (k + i)) = Some (i + 1)"
    by (subst leap_scan.simps) (simp add: Let_def)
  with i show ?case
    by simp
next
  case (Suc n)
  then have i: "i < 13" and n: "n = nat (13 - (i + 1))"
    by simp_all
  show ?case
  proof (cases "sector tz (k + (i + 1)) = sector tz (k + i)")
    case True
    then have "leap_scan k tz i (sector tz (k + i)) = Some (i + 1)"
      by (subst leap_scan.simps) (simp add: Let_def sector_def)
    with True i show ?thesis
      by (simp add: add.assoc)
  next
    case False
    with i have unfold: "leap_scan k tz i (sector tz (k + i)) =
        leap_scan k tz (i + 1) (sector tz (k + (i + 1)))"
      by (subst leap_scan.simps) (simp add: Let_def sector_def)
    from Suc.hyps(1) [OF n] obtain r where
      r: "leap_scan k tz (i + 1) (sector tz (k + (i + 1))) = Some r" "i + 1 < r"
         "r \<le> 14 \<or> r = i + 1 + 1"
         "sector tz (k + r) = sector tz (k + r - 1) \<or> 14 \<le> r"
         "\<forall>j. i + 1 < j \<and> j < r \<longrightarrow> sector tz (k + j) \<noteq> sector tz (k + j - 1) \<and> j < 14"
      by blast
    have "sector tz (k + j) \<noteq> sector tz (k + j - 1) \<and> j < 14" if "i < j" "j < r" for j
    proof (cases "j = i + 1")
      case True
      with False i show ?thesis by simp
    next
      case False
      with that r(5) show ?thesis by simp
    qed
    with r i unfold show ?thesis
      by auto
  qed
qed

lemma get_leap_month_offset_total:
  "\<exists>r. get_leap_month_offset a11 tz = Some r"
proof -
  define k where "k = \<lfloor>(real_of_int a11 - 2415021.076998695) / 29.530588853 + 0.5\<rfloor>"
  from leap_scan_returns [of k tz 1] obtain r where
    "leap_scan k tz 1 (sector tz (k + 1)) = Some r"
    by blast
  then have "get_leap_month_offset a11 tz = Some (r - 1)"
    by (simp add: get_leap_month_offset_def Let_def k_def sector_def)
  then show ?thesis ..
qed

text \<open>
  C8: for every month-11 anchor \<open>a11\<close> and every time zone the scan of
  \<open>get_leap_month_offset\<close> terminates and returns an offset \<open>r\<close> between 1 and 13. Either new
  moons \<open>k + r\<close> and \<open>k + r + 1\<close> have the same sun-longitude sector (\<open>r\<close> is the index of the
  first of the pair) or the bound was reached (\<open>r = 13\<close>); no earlier pair of consecutive new
  moons has equal sectors.
\<close>

theorem get_leap_month_offset_terminates:
  assumes k: "k = \<lfloor>(real_of_int a11 - 2415021.076998695) / 29.530588853 + 0.5\<rfloor>"
  shows "\<exists>r. get_leap_month_offset a11 time_zone = Some r \<and> 1 \<le> r \<and> r \<le> 13 \<and>
    (sector time_zone (k + r + 1) = sector time_zone (k + r) \<or> r = 13) \<and>
    (\<forall>j. 1 \<le> j \<and> j < r \<longrightarrow> sector time_zone (k + j + 1) \<noteq> sector time_zone (k + j))"
proof -
  from leap_scan_returns [of k time_zone 1] obtain r where
    r: "leap_scan k time_zone 1 (sector time_zone (k + 1)) = Some r" "1 < r" "r \<le> 14"
       "sector time_zone (k + r) = sector time_zone (k + r - 1) \<or> 14 \<le> r"
       "\<forall>j. 1 < j \<and> j < r \<longrightarrow>
          sector time_zone (k + j) \<noteq> sector time_zone (k + j - 1) \<and> j < 14"
    by auto
  from r(1) have "get_leap_month_offset a11 time_zone = Some (r - 1)"
    by (simp add: get_leap_month_offset_def Let_def k sector_def)
  moreover from r(2,3) have "1 \<le> r - 1" "r - 1 \<le> 13"
    by simp_all
  moreover from r(3,4) have
    "sector time_zone (k + (r - 1) + 1) = sector time_zone (k + (r - 1)) \<or> r - 1 = 13"
    by (auto simp: algebra_simps)
  moreover have "sector time_zone (k + j + 1) \<noteq> sector time_zone (k + j)"
    if "1 \<le> j" "j < r - 1" for j
    using r(5) [rule_format, of "j + 1"] that by (simp add: algebra_simps)
  ultimately show ?thesis
    by blast
qed

text \<open>The anchor 2453000 at time zone 7: the scan returns an offset between 1 and 13.\<close>

theorem get_leap_month_offset_terminates_witness:
  "\<exists>r. get_leap_month_offset 2453000 7 = Some r \<and> 1 \<le> r \<and> r \<le> 13"
  using get_leap_month_offset_terminates [OF refl, of 2453000 7] by blast

section \<open>Solar to lunar conversion\<close>

text \<open>
  C9: solar-to-lunar conversion is total. For every solar date (in fact every triple of
  integers) and every time-zone offset \<open>convert_solar_to_lunar\<close> returns, raises nothing and
  yields a lunar date with all four fields set.
\<close>

theorem convert_solar_to_lunar_total:
  "\<exists>d m y l. convert_solar_to_lunar dd mm yy time_zone =
     Some \<lparr>day = d, month = m, year = y, leap = l\<rparr>"
proof -
  define day_number where "day_number = jd_from_date dd mm yy"
  define k where "k = \<lfloor>(real_of_int day_number - 2415021.076998695) / 29.530588853\<rfloor>"
  define month_start where "month_start =
    (if get_new_moon_day (k + 1) time_zone > day_number then get_new_moon_day k time_zone
     else get_new_moon_day (k + 1) time_zone)"
  obtain lunar_year a11 b11 where anchors:
    "(if get_lunar_month11 yy time_zone \<ge> month_start
      then (yy, get_lunar_month11 (yy - 1) time_zone, get_lunar_month11 yy time_zone)
      else (yy + 1, get_lunar_month11 yy time_zone, get_lunar_month11 (yy + 1) time_zone))
     = (lunar_year, a11, b11)"
    by (rule prod_cases3)
  define diff where "diff = (month_start - a11) div 29"
  obtain r where r: "get_leap_month_offset a11 time_zone = Some r"
    using get_leap_month_offset_total by blast
  obtain lunar_month lunar_leap where month:
    "(if b11 - a11 > 365
      then map_option
             (\<lambda>leap_month_diff.
                if diff \<ge> leap_month_diff then (diff + 10, diff = leap_month_diff)
                else (diff + 11, False))
             (get_leap_month_offset a11 time_zone)
      else Some (diff + 11, False)) = Some (lunar_month, lunar_leap)"
    unfolding r by (cases "b11 - a11 > 365"; cases "diff \<ge> r") simp_all
  have "convert_solar_to_lunar dd mm yy time_zone =
    Some \<lparr>day = day_number - month_start + 1,
          month = (if lunar_month > 12 then lunar_month - 12 else lunar_month),
          year = (if (if lunar_month > 12 then lunar_month - 12 else lunar_month) \<ge> 11 \<and> diff < 4
                  then lunar_year - 1 else lunar_year),
          leap = lunar_leap\<rparr>"
    unfolding convert_solar_to_lunar_def Let_def
    unfolding day_number_def [symmetric] k_def [symmetric] month_start_def [symmetric]
    unfolding anchors prod.case
    unfolding diff_def [symmetric] month option.case prod.case
    by (rule refl)
  then show ?thesis
    by blast
qed

end
